theory Spec2Isabelle
  imports Complex_Main "HOL-Library.Word"
begin

section \<open>Strings, bytes and the random source\<close>

text \<open>
  A Python \<open>str\<close> is a list of Unicode code points, so \<open>length\<close> counts what \<open>len\<close>
  counts and a lone surrogate (\<open>0xD800..0xDFFF\<close>) is a value like any other; numbers
  from \<open>0x110000\<close> on are not code points of any \<open>str\<close>. \<open>lit\<close> turns a literal into
  a \<open>str\<close>. Bytes are 8-bit words.

  \<open>hashlib.sha256\<close> is a library primitive: every definition that hashes takes the raw
  digest function \<open>sha\<close> (bytes to bytes) as an argument, and nothing is assumed about
  it. \<open>secrets\<close> is modelled by an entropy function giving the raw value of the \<open>i\<close>-th
  draw; every sequence of draws is some entropy function.
\<close>

type_synonym codepoint = nat
type_synonym str = "codepoint list"
type_synonym byte = "8 word"
type_synonym entropy = "nat \<Rightarrow> nat"

datatype exn = ValueError | TypeError | IndexError | AttributeError | UnicodeEncodeError

definition code_of :: "char \<Rightarrow> codepoint" where
  "code_of c = of_char c"

definition lit :: "string \<Rightarrow> str" where
  "lit s = map of_char s"

text \<open>
  The tables of the runtime that are not part of the repository, taken as a parameter
  \<open>T\<close> about which nothing is assumed: the full upper-case mapping of a code point
  outside ASCII, \<open>str.lower\<close> on a string that is not pure ASCII (it is not a
  character-by-character map: a capital sigma depends on its neighbours),
  \<open>str.isspace\<close> of a code point outside ASCII, and the function \<open>UPPER\<close> of the SQL
  engine. On ASCII the three Python operations are fixed by the language and written
  out below.
\<close>

record tables =
  to_upper_full :: "codepoint \<Rightarrow> codepoint list"
  unicode_lower :: "str \<Rightarrow> str"
  unicode_isspace :: "codepoint \<Rightarrow> bool"
  sql_upper :: "str \<Rightarrow> str"

definition ascii_upper :: "codepoint \<Rightarrow> codepoint" where
  "ascii_upper c = (if 97 \<le> c \<and> c \<le> 122 then c - 32 else c)"

definition ascii_lower :: "codepoint \<Rightarrow> codepoint" where
  "ascii_lower c = (if 65 \<le> c \<and> c \<le> 90 then c + 32 else c)"

definition is_ascii :: "str \<Rightarrow> bool" where
  "is_ascii s = list_all (\<lambda>c. c < 128) s"

text \<open>\<open>str.upper()\<close>: each code point is replaced by its full upper-case mapping.\<close>

definition upper_cp :: "tables \<Rightarrow> codepoint \<Rightarrow> codepoint list" where
  "upper_cp T c = (if c < 128 then [ascii_upper c] else to_upper_full T c)"

definition upper :: "tables \<Rightarrow> str \<Rightarrow> str" where
  "upper T s = concat (map (upper_cp T) s)"

definition lower :: "tables \<Rightarrow> str \<Rightarrow> str" where
  "lower T s = (if is_ascii s then map ascii_lower s else unicode_lower T s)"

definition isspace :: "tables \<Rightarrow> codepoint \<Rightarrow> bool" where
  "isspace T c =
     (if c < 128 then c \<in> {9, 10, 11, 12, 13, 28, 29, 30, 31, 32} else unicode_isspace T c)"

text \<open>\<open>str.strip()\<close>: white space is removed from both ends.\<close>

definition strip :: "tables \<Rightarrow> str \<Rightarrow> str" where
  "strip T s = rev (dropWhile (isspace T) (rev (dropWhile (isspace T) s)))"

definition hex_digit :: "nat \<Rightarrow> codepoint" where
  "hex_digit n = lit ''0123456789abcdef'' ! (n mod 16)"

definition hex_byte :: "byte \<Rightarrow> str" where
  "hex_byte b = [hex_digit (unat b div 16), hex_digit (unat b mod 16)]"

text \<open>\<open>bytes.hex()\<close>, which is also what \<open>hexdigest()\<close> applies to the digest.\<close>

definition hex :: "byte list \<Rightarrow> str" where
  "hex bs = concat (map hex_byte bs)"

text \<open>Evaluating a sequence of results from left to right: the first exception leaves it.\<close>

fun collect :: "(exn + 'a) list \<Rightarrow> exn + 'a list" where
  "collect [] = Inr []"
| "collect (x # xs) =
     (case x of
        Inl e \<Rightarrow> Inl e
      | Inr v \<Rightarrow> (case collect xs of Inl e \<Rightarrow> Inl e | Inr vs \<Rightarrow> Inr (v # vs)))"

text \<open>
  \<open>str.encode()\<close>: UTF-8 with the default error handler, which raises
  \<open>UnicodeEncodeError\<close> on a surrogate. Numbers from \<open>0x110000\<close> on, which no \<open>str\<close>
  holds, are given the same result.
\<close>

definition encode_char :: "codepoint \<Rightarrow> exn + byte list" where
  "encode_char c =
     (if c < 128 then Inr [of_nat c]
      else if c < 2048 then Inr [of_nat (192 + c div 64), of_nat (128 + c mod 64)]
      else if 55296 \<le> c \<and> c \<le> 57343 then Inl UnicodeEncodeError
      else if c < 65536
      then Inr [of_nat (224 + c div 4096), of_nat (128 + c div 64 mod 64),
                of_nat (128 + c mod 64)]
      else if c < 1114112
      then Inr [of_nat (240 + c div 262144), of_nat (128 + c div 4096 mod 64),
                of_nat (128 + c div 64 mod 64), of_nat (128 + c mod 64)]
      else Inl UnicodeEncodeError)"

definition encode :: "str \<Rightarrow> exn + byte list" where
  "encode s =
     (case collect (map encode_char s) of
        Inl e \<Rightarrow> Inl e
      | Inr parts \<Rightarrow> Inr (concat parts))"

text \<open>\<open>s.split(sep)\<close> for a one-character separator: one more part than separators.\<close>

fun split_str :: "codepoint \<Rightarrow> str \<Rightarrow> str list" where
  "split_str sep [] = [[]]"
| "split_str sep (c # cs) =
     (if c = sep then [] # split_str sep cs
      else (case split_str sep cs of
              [] \<Rightarrow> [[c]]
            | p # ps \<Rightarrow> (c # p) # ps))"

text \<open>The tuple assignment \<open>a, b = xs\<close>: anything but two items raises \<open>ValueError\<close>.\<close>

definition unpack2 :: "'a list \<Rightarrow> exn + ('a \<times> 'a)" where
  "unpack2 xs = (case xs of [a, b] \<Rightarrow> Inr (a, b) | _ \<Rightarrow> Inl ValueError)"

text \<open>\<open>secrets.token_bytes(n)\<close> and \<open>secrets.token_hex(n)\<close> for \<open>n \<ge> 0\<close>.\<close>

definition token_bytes :: "entropy \<Rightarrow> nat \<Rightarrow> byte list" where
  "token_bytes rng n = map (\<lambda>i. of_nat (rng i)) [0..<n]"

definition token_hex :: "entropy \<Rightarrow> nat \<Rightarrow> str" where
  "token_hex rng n = hex (token_bytes rng n)"

section \<open>utils/auth.py\<close>

text \<open>The \<open>encode\<close> call can raise; the exception leaves \<open>hash_password\<close>.\<close>

definition hash_password :: "(byte list \<Rightarrow> byte list) \<Rightarrow> entropy \<Rightarrow> str \<Rightarrow> exn + str" where
  "hash_password sha rng password =
     (let salt = token_hex rng 16
      in case encode (salt @ password) of
           Inl e \<Rightarrow> Inl e
         | Inr bytes \<Rightarrow>
             (let hashed = hex (sha bytes)
              in Inr (salt @ lit ''$'' @ hashed)))"

text \<open>
  The \<open>try\<close> block holds only the split and the tuple assignment; \<open>except ValueError\<close>
  turns that error into \<open>False\<close>. The \<open>encode\<close> call comes after the \<open>try\<close> statement, so
  its exception leaves the function.
\<close>

definition verify_password ::
  "(byte list \<Rightarrow> byte list) \<Rightarrow> str \<Rightarrow> str \<Rightarrow> exn + bool" where
  "verify_password sha stored password =
     (case unpack2 (split_str (code_of CHR ''$'') stored) of
        Inl ValueError \<Rightarrow> Inr False
      | Inl e \<Rightarrow> Inl e
      | Inr (salt, stored_hash) \<Rightarrow>
          (case encode (salt @ password) of
             Inl e \<Rightarrow> Inl e
           | Inr bytes \<Rightarrow>
               (let computed_hash = hex (sha bytes)
                in Inr (computed_hash = stored_hash))))"

section \<open>Facts about the string helpers\<close>

lemma hex_digit_in: "hex_digit n \<in> set (lit ''0123456789abcdef'')"
proof -
  have "n mod 16 < length (lit ''0123456789abcdef'')" by (simp add: lit_def)
  then show ?thesis unfolding hex_digit_def by (rule nth_mem)
qed

lemma hex_chars: "set (hex bs) \<subseteq> set (lit ''0123456789abcdef'')"
  using hex_digit_in by (auto simp: hex_def hex_byte_def)

lemma dollar_notin_hex: "code_of CHR ''$'' \<notin> set (hex bs)"
  using hex_chars [of bs] by (auto simp: lit_def code_of_def)

lemma hex_ascii: "c \<in> set (hex bs) \<Longrightarrow> c < 128"
  using hex_chars [of bs] by (auto simp: lit_def)

lemma length_hex: "length (hex bs) = 2 * length bs"
  by (induction bs) (simp_all add: hex_def hex_byte_def)

lemma collect_Inr_iff: "(\<exists>vs. collect xs = Inr vs) \<longleftrightarrow> (\<forall>x\<in>set xs. \<exists>v. x = Inr v)"
  by (induction xs) (auto split: sum.splits)

lemma collect_all_Inr: "collect (map (\<lambda>i. Inr (f i)) xs) = Inr (map f xs)"
  by (induction xs) simp_all

lemma collect_Inl_in: "collect xs = Inl e \<Longrightarrow> Inl e \<in> set xs"
  by (induction xs) (auto split: sum.splits)

lemma encode_char_error: "encode_char c = Inl e \<Longrightarrow> e = UnicodeEncodeError"
  by (auto simp: encode_char_def split: if_splits)

lemma encode_Inr_iff: "(\<exists>bs. encode s = Inr bs) \<longleftrightarrow> (\<forall>c\<in>set s. \<exists>b. encode_char c = Inr b)"
proof -
  have "(\<exists>bs. encode s = Inr bs) \<longleftrightarrow> (\<exists>vs. collect (map encode_char s) = Inr vs)"
    by (auto simp: encode_def split: sum.splits)
  then show ?thesis by (auto simp: collect_Inr_iff)
qed

lemma encode_error: "encode s = Inl e \<Longrightarrow> e = UnicodeEncodeError"
proof -
  assume "encode s = Inl e"
  then have "collect (map encode_char s) = Inl e"
    by (auto simp: encode_def split: sum.splits)
  then have "Inl e \<in> set (map encode_char s)" by (rule collect_Inl_in)
  then show ?thesis by (auto dest: encode_char_error [OF sym])
qed

lemma encode_subset:
  assumes "encode s = Inr bs" and "set s' \<subseteq> set s"
  shows "\<exists>bs'. encode s' = Inr bs'"
  using assms encode_Inr_iff [of s] encode_Inr_iff [of s'] by blast

lemma encode_append:
  assumes "encode a = Inr x" and "encode b = Inr y"
  shows "\<exists>z. encode (a @ b) = Inr z"
  using assms encode_Inr_iff [of a] encode_Inr_iff [of b] encode_Inr_iff [of "a @ b"]
  by auto

lemma encode_hex: "\<exists>bs'. encode (hex bs) = Inr bs'"
proof -
  have "\<forall>c\<in>set (hex bs). \<exists>b. encode_char c = Inr b"
    using hex_ascii [of _ bs] by (auto simp: encode_char_def)
  then show ?thesis by (simp add: encode_Inr_iff)
qed

lemma split_str_nonempty: "split_str sep s \<noteq> []"
  by (induction s) (auto split: list.splits)

lemma split_str_no_sep: "sep \<notin> set s \<Longrightarrow> split_str sep s = [s]"
  by (induction s) auto

lemma split_str_one_sep:
  "sep \<notin> set a \<Longrightarrow> split_str sep (a @ sep # b) = a # split_str sep b"
  by (induction a) auto

lemma length_split_str: "length (split_str sep s) = Suc (count_list s sep)"
  by (induction s) (auto split: list.splits simp: split_str_nonempty)

lemma split_str_parts: "p \<in> set (split_str sep s) \<Longrightarrow> set p \<subseteq> set s"
proof (induction s arbitrary: p)
  case Nil
  then show ?case by simp
next
  case (Cons c cs)
  show ?case
  proof (cases "c = sep")
    case True
    with Cons show ?thesis by auto
  next
    case False
    obtain q qs where q: "split_str sep cs = q # qs"
      using split_str_nonempty [of sep cs] by (cases "split_str sep cs") auto
    with False Cons.prems have "p = c # q \<or> p \<in> set qs" by simp
    moreover have "set q \<subseteq> set cs" using Cons.IH [of q] q by simp
    moreover have "p \<in> set qs \<Longrightarrow> set p \<subseteq> set cs" using Cons.IH [of p] q by simp
    ultimately show ?thesis by auto
  qed
qed

lemma unpack2_Inr: "unpack2 xs = Inr (a, b) \<Longrightarrow> xs = [a, b]"
  by (auto simp: unpack2_def split: list.splits)

lemma unpack2_wrong_length: "length xs \<noteq> 2 \<Longrightarrow> unpack2 xs = Inl ValueError"
  by (auto simp: unpack2_def split: list.splits)

lemma unpack2_raises_only_ValueError: "unpack2 xs = Inl e \<Longrightarrow> e = ValueError"
  by (auto simp: unpack2_def split: list.splits)

section \<open>Credential Hasher\<close>

text \<open>
  C1, as the spec states it, for every plaintext string: a plaintext holding a lone
  surrogate cannot be encoded, and \<open>hash_password\<close> leaves by \<open>UnicodeEncodeError\<close>
  instead of returning a stored string to verify.
\<close>

theorem hash_password_surrogate_counterexample:
  "hash_password (\<lambda>bs. bs) (\<lambda>i. 0) [55296] = Inl UnicodeEncodeError"
proof -
  have "\<not> (\<exists>bs. encode (token_hex (\<lambda>i. 0) 16 @ [55296]) = Inr bs)"
    by (simp add: encode_Inr_iff encode_char_def)
  then obtain e where e: "encode (token_hex (\<lambda>i. 0) 16 @ [55296]) = Inl e"
    by (cases "encode (token_hex (\<lambda>i. 0) 16 @ [55296])") auto
  then have "e = UnicodeEncodeError" by (rule encode_error)
  with e show ?thesis by (simp add: hash_password_def Let_def)
qed

text \<open>
  C1, amended: for every plaintext \<open>p\<close> that can be encoded as UTF-8, every digest
  function and every sequence of random draws (hence every salt \<open>token_hex(16)\<close> can
  return), \<open>hash_password(p)\<close> returns a stored string and
  \<open>verify_password(hash_password(p), p)\<close> returns \<open>True\<close>.
\<close>

theorem verify_hash_roundtrip:
  assumes "encode p = Inr bytes"
  shows "\<exists>stored. hash_password sha rng p = Inr stored
           \<and> verify_password sha stored p = Inr True"
proof -
  let ?salt = "token_hex rng 16"
  obtain sb where "encode ?salt = Inr sb"
    unfolding token_hex_def using encode_hex by blast
  with assms obtain z where z: "encode (?salt @ p) = Inr z"
    using encode_append by blast
  let ?hashed = "hex (sha z)"
  have stored: "hash_password sha rng p = Inr (?salt @ lit ''$'' @ ?hashed)"
    using z by (simp add: hash_password_def Let_def)
  have "code_of CHR ''$'' \<notin> set ?salt" "code_of CHR ''$'' \<notin> set ?hashed"
    by (simp_all add: token_hex_def dollar_notin_hex)
  then have "split_str (code_of CHR ''$'') (?salt @ code_of CHR ''$'' # ?hashed)
               = [?salt, ?hashed]"
    by (simp add: split_str_one_sep split_str_no_sep)
  moreover have "lit ''$'' = [code_of CHR ''$'']" by (simp add: lit_def code_of_def)
  ultimately have "verify_password sha (?salt @ lit ''$'' @ ?hashed) p = Inr True"
    using z by (simp add: verify_password_def unpack2_def Let_def)
  with stored show ?thesis by blast
qed

theorem verify_hash_roundtrip_witness:
  "encode (lit ''secret123'') = Inr (map of_nat [115, 101, 99, 114, 101, 116, 49, 50, 51])
   \<and> (\<exists>stored. hash_password (\<lambda>bs. bs) (\<lambda>i. 0) (lit ''secret123'') = Inr stored
        \<and> verify_password (\<lambda>bs. bs) stored (lit ''secret123'') = Inr True)"
proof -
  have e: "encode (lit ''secret123'')
             = Inr (map of_nat [115, 101, 99, 114, 101, 116, 49, 50, 51])"
    by (simp add: encode_def encode_char_def lit_def)
  from verify_hash_roundtrip [OF e] e show ?thesis by blast
qed

text \<open>
  C8, as the spec states it, total on all string inputs: the \<open>encode\<close> call is outside
  the \<open>try\<close>, so a well-formed stored string with a plaintext holding a lone surrogate
  makes \<open>verify_password\<close> leave by \<open>UnicodeEncodeError\<close>.
\<close>

theorem verify_password_surrogate_counterexample:
  "verify_password (\<lambda>bs. bs) (lit ''ab$cd'') [55296] = Inl UnicodeEncodeError"
proof -
  have s: "split_str (code_of CHR ''$'') (lit ''ab$cd'') = [lit ''ab'', lit ''cd'']"
    by (simp add: lit_def code_of_def)
  have "\<not> (\<exists>bs. encode (lit ''ab'' @ [55296]) = Inr bs)"
    by (simp add: encode_Inr_iff encode_char_def)
  then obtain e where e: "encode (lit ''ab'' @ [55296]) = Inl e"
    by (cases "encode (lit ''ab'' @ [55296])") auto
  then have "e = UnicodeEncodeError" by (rule encode_error)
  with e s show ?thesis by (simp add: verify_password_def unpack2_def)
qed

text \<open>
  C8, amended: a stored string without exactly one \<open>$\<close> (none, or more than one) makes
  \<open>verify_password\<close> return \<open>False\<close> without raising, whatever the plaintext. On a stored
  string and a plaintext that can both be encoded as UTF-8, \<open>verify_password\<close> returns
  a boolean. The only exception that leaves it is \<open>UnicodeEncodeError\<close>, and only on a
  stored string with exactly one \<open>$\<close>.
\<close>

theorem verify_password_fails_closed:
  "(count_list s (code_of CHR ''$'') \<noteq> 1 \<longrightarrow> verify_password sha s p = Inr False)
   \<and> ((\<exists>bs. encode s = Inr bs) \<and> (\<exists>bp. encode p = Inr bp) \<longrightarrow>
        (\<exists>b. verify_password sha s p = Inr b))
   \<and> (\<forall>e. verify_password sha s p = Inl e \<longrightarrow>
        e = UnicodeEncodeError \<and> count_list s (code_of CHR ''$'') = 1)"
proof -
  let ?parts = "split_str (code_of CHR ''$'') s"
  have malformed: "verify_password sha s p = Inr False"
    if "count_list s (code_of CHR ''$'') \<noteq> 1"
  proof -
    from that have "length ?parts \<noteq> 2" by (simp add: length_split_str)
    then have "unpack2 ?parts = Inl ValueError" by (rule unpack2_wrong_length)
    then show ?thesis by (simp add: verify_password_def)
  qed
  have encodable: "\<exists>b. verify_password sha s p = Inr b"
    if s: "\<exists>bs. encode s = Inr bs" and p: "\<exists>bp. encode p = Inr bp"
  proof (cases "unpack2 ?parts")
    case (Inl e)
    then have "e = ValueError" by (rule unpack2_raises_only_ValueError)
    with Inl show ?thesis by (auto simp: verify_password_def)
  next
    case (Inr q)
    obtain salt stored_hash where q: "q = (salt, stored_hash)" by (cases q)
    with Inr have "?parts = [salt, stored_hash]" by (simp add: unpack2_Inr)
    then have "salt \<in> set ?parts" by simp
    then have "set salt \<subseteq> set s" by (rule split_str_parts)
    with s obtain sb where "encode salt = Inr sb" using encode_subset by blast
    with p obtain z where "encode (salt @ p) = Inr z" using encode_append by blast
    with Inr q show ?thesis by (simp add: verify_password_def Let_def)
  qed
  have raised: "e = UnicodeEncodeError \<and> count_list s (code_of CHR ''$'') = 1"
    if "verify_password sha s p = Inl e" for e
  proof -
    from that malformed have one: "count_list s (code_of CHR ''$'') = 1" by fastforce
    show ?thesis
    proof (cases "unpack2 ?parts")
      case (Inl e')
      then have "e' = ValueError" by (rule unpack2_raises_only_ValueError)
      with Inl that show ?thesis by (simp add: verify_password_def)
    next
      case (Inr q)
      obtain salt stored_hash where q: "q = (salt, stored_hash)" by (cases q)
      with Inr that have "encode (salt @ p) = Inl e"
        by (auto simp: verify_password_def Let_def split: sum.splits)
      then have "e = UnicodeEncodeError" by (rule encode_error)
      with one show ?thesis by simp
    qed
  qed
  from malformed encodable raised show ?thesis by blast
qed

theorem verify_password_fails_closed_witness:
  "count_list (lit ''nodelimiter'') (code_of CHR ''$'') \<noteq> 1
   \<and> verify_password (\<lambda>bs. bs) (lit ''nodelimiter'') (lit ''secret123'') = Inr False
   \<and> count_list (lit ''a$b$c'') (code_of CHR ''$'') \<noteq> 1
   \<and> verify_password (\<lambda>bs. bs) (lit ''a$b$c'') [55296] = Inr False
   \<and> (\<exists>bs. encode (lit ''ab$cd'') = Inr bs) \<and> (\<exists>bp. encode (lit ''secret123'') = Inr bp)
   \<and> (\<exists>b. verify_password (\<lambda>bs. bs) (lit ''ab$cd'') (lit ''secret123'') = Inr b)"
proof -
  have c1: "count_list (lit ''nodelimiter'') (code_of CHR ''$'') \<noteq> 1"
    and c2: "count_list (lit ''a$b$c'') (code_of CHR ''$'') \<noteq> 1"
    by (simp_all add: lit_def code_of_def)
  have e1: "\<exists>bs. encode (lit ''ab$cd'') = Inr bs"
    and e2: "\<exists>bp. encode (lit ''secret123'') = Inr bp"
    by (simp_all add: encode_Inr_iff encode_char_def lit_def)
  from verify_password_fails_closed [of "lit ''nodelimiter''" "\<lambda>bs. bs" "lit ''secret123''"]
       verify_password_fails_closed [of "lit ''a$b$c''" "\<lambda>bs. bs" "[55296]"]
       verify_password_fails_closed [of "lit ''ab$cd''" "\<lambda>bs. bs" "lit ''secret123''"]
       c1 c2 e1 e2
  show ?thesis by blast
qed

section \<open>utils/login_helpers.py: LoginLockoutManager\<close>

text \<open>
  The manager holds two dictionaries keyed by user name; the type \<open>'k\<close> of the keys is
  left open, the screen uses \<open>str\<close>. Every method that reads \<open>time.time()\<close> takes the
  value it reads as the argument \<open>now\<close>; timestamps are real numbers of seconds.
\<close>

record 'k lockout_manager =
  failed_attempts :: "'k \<rightharpoonup> int"
  lockout_expiry :: "'k \<rightharpoonup> real"

definition MAX_ATTEMPTS :: int where
  "MAX_ATTEMPTS = 3"

definition LOCKOUT_DURATION :: real where
  "LOCKOUT_DURATION = 300"

text \<open>\<open>__init__\<close>: both dictionaries empty.\<close>

definition new_manager :: "'k lockout_manager" where
  "new_manager = \<lparr>failed_attempts = Map.empty, lockout_expiry = Map.empty\<rparr>"

text \<open>\<open>d.get(k, 0)\<close>\<close>

definition get_or_zero :: "('k \<rightharpoonup> int) \<Rightarrow> 'k \<Rightarrow> int" where
  "get_or_zero d k = (case d k of None \<Rightarrow> 0 | Some v \<Rightarrow> v)"

definition increment_failed_attempts ::
  "'k lockout_manager \<Rightarrow> 'k \<Rightarrow> real \<Rightarrow> 'k lockout_manager" where
  "increment_failed_attempts m username now =
     (let attempts = get_or_zero (failed_attempts m) username + 1;
          m1 = m\<lparr>failed_attempts := (failed_attempts m)(username \<mapsto> attempts)\<rparr>
      in if attempts \<ge> MAX_ATTEMPTS
         then m1\<lparr>lockout_expiry := (lockout_expiry m1)(username \<mapsto> now + LOCKOUT_DURATION)\<rparr>
         else m1)"

text \<open>\<open>pop(username, None)\<close> on both dictionaries.\<close>

definition clear_lockout :: "'k lockout_manager \<Rightarrow> 'k \<Rightarrow> 'k lockout_manager" where
  "clear_lockout m username =
     m\<lparr>failed_attempts := (failed_attempts m)(username := None),
       lockout_expiry := (lockout_expiry m)(username := None)\<rparr>"

definition is_locked_out ::
  "'k lockout_manager \<Rightarrow> 'k \<Rightarrow> real \<Rightarrow> bool \<times> 'k lockout_manager" where
  "is_locked_out m username now =
     (case lockout_expiry m username of
        None \<Rightarrow> (False, m)
      | Some expiry \<Rightarrow>
          if now > expiry then (False, clear_lockout m username) else (True, m))"

text \<open>Python's \<open>int(x)\<close> on a float: truncation towards zero.\<close>

definition py_int :: "real \<Rightarrow> int" where
  "py_int x = (if x \<ge> 0 then \<lfloor>x\<rfloor> else \<lceil>x\<rceil>)"

text \<open>\<open>if not expiry\<close> holds for a missing entry and for the timestamp \<open>0.0\<close>.\<close>

definition get_remaining_lockout_minutes :: "'k lockout_manager \<Rightarrow> 'k \<Rightarrow> real \<Rightarrow> int" where
  "get_remaining_lockout_minutes m username now =
     (case lockout_expiry m username of
        None \<Rightarrow> 0
      | Some expiry \<Rightarrow>
          if expiry = 0 then 0 else max 0 (py_int ((expiry - now) / 60)))"


section \<open>Facts about the lockout manager\<close>


lemma clear_lockout_same:
  "failed_attempts (clear_lockout m u) u = None \<and> lockout_expiry (clear_lockout m u) u = None"
  by (simp add: clear_lockout_def)

lemma increment_count:
  "failed_attempts (increment_failed_attempts m u now) u
     = Some (get_or_zero (failed_attempts m) u + 1)"
  by (simp add: increment_failed_attempts_def Let_def)

lemma increment_expiry:
  "lockout_expiry (increment_failed_attempts m u now) u =
     (if get_or_zero (failed_attempts m) u + 1 \<ge> MAX_ATTEMPTS
      then Some (now + LOCKOUT_DURATION) else lockout_expiry m u)"
  by (simp add: increment_failed_attempts_def Let_def)







lemma py_int_nonneg_iff: "0 \<le> py_int x \<longleftrightarrow> - 1 < x"
  by (auto simp: py_int_def)


section \<open>Lockout Tracker\<close>

text \<open>
  C2. Starting from the Clear state of identity \<open>X\<close> (no entry in either dictionary),
  one or two \<open>increment_failed_attempts\<close> calls do not lock \<open>X\<close>, and after the third
  \<open>is_locked_out(X)\<close> returns \<open>True\<close> when evaluated no later than the expiry set by the
  third call. From any state \<open>m'\<close>, one \<open>clear_lockout\<close> call leaves \<open>X\<close> Clear: no count
  is stored (\<open>get(X, 0)\<close> is zero), no expiry is stored, and \<open>is_locked_out(X)\<close> returns
  \<open>False\<close> without changing anything.
\<close>

theorem three_failures_lock_one_success_clears:
  assumes "failed_attempts m X = None" and "lockout_expiry m X = None"
    and "\<not> now > t3 + LOCKOUT_DURATION"
  shows
    "\<not> fst (is_locked_out (increment_failed_attempts m X t1) X now1)
     \<and> \<not> fst (is_locked_out
               (increment_failed_attempts (increment_failed_attempts m X t1) X t2) X now2)
     \<and> fst (is_locked_out
             (increment_failed_attempts
               (increment_failed_attempts (increment_failed_attempts m X t1) X t2) X t3) X now)
     \<and> failed_attempts (clear_lockout m' X) X = None
     \<and> get_or_zero (failed_attempts (clear_lockout m' X)) X = 0
     \<and> lockout_expiry (clear_lockout m' X) X = None
     \<and> is_locked_out (clear_lockout m' X) X now3 = (False, clear_lockout m' X)"
proof -
  let ?m1 = "increment_failed_attempts m X t1"
  let ?m2 = "increment_failed_attempts ?m1 X t2"
  let ?m3 = "increment_failed_attempts ?m2 X t3"
  have c1: "failed_attempts ?m1 X = Some 1"
    using assms(1) by (simp add: increment_count get_or_zero_def)
  have e1: "lockout_expiry ?m1 X = None"
    using assms(1,2) by (simp add: increment_expiry get_or_zero_def MAX_ATTEMPTS_def)
  have c2: "failed_attempts ?m2 X = Some 2"
    using c1 by (simp add: increment_count get_or_zero_def)
  have e2: "lockout_expiry ?m2 X = None"
    using c1 e1 by (simp add: increment_expiry get_or_zero_def MAX_ATTEMPTS_def)
  have e3: "lockout_expiry ?m3 X = Some (t3 + LOCKOUT_DURATION)"
    using c2 by (simp add: increment_expiry get_or_zero_def MAX_ATTEMPTS_def)
  have "\<not> fst (is_locked_out ?m1 X now1)"
    using e1 by (simp add: is_locked_out_def)
  moreover have "\<not> fst (is_locked_out ?m2 X now2)"
    using e2 by (simp add: is_locked_out_def)
  moreover have "fst (is_locked_out ?m3 X now)"
    using e3 assms(3) by (simp add: is_locked_out_def)
  moreover have "is_locked_out (clear_lockout m' X) X now3 = (False, clear_lockout m' X)"
    by (simp add: is_locked_out_def clear_lockout_same)
  ultimately show ?thesis
    by (simp add: clear_lockout_same get_or_zero_def)
qed

theorem three_failures_lock_one_success_clears_witness:
  "failed_attempts new_manager ''user@example.com'' = None
   \<and> lockout_expiry new_manager ''user@example.com'' = None
   \<and> \<not> (302::real) > 2 + LOCKOUT_DURATION
   \<and> fst (is_locked_out
           (increment_failed_attempts
             (increment_failed_attempts
               (increment_failed_attempts new_manager ''user@example.com'' 0)
               ''user@example.com'' 1)
             ''user@example.com'' 2)
           ''user@example.com'' 302)"
  using three_failures_lock_one_success_clears
          [where m = new_manager and X = "''user@example.com''" and now = 302
             and ?t1.0 = 0 and ?t2.0 = 1 and ?t3.0 = 2]
  by (simp add: new_manager_def LOCKOUT_DURATION_def)

text \<open>
  C5. If \<open>X\<close> has lockout expiry \<open>t\<close> and \<open>is_locked_out(X)\<close> reads a time strictly greater
  than \<open>t\<close>, it returns \<open>False\<close> and removes both entries of \<open>X\<close> (back to Clear); a later
  \<open>get_remaining_lockout_minutes(X)\<close> returns \<open>0\<close> at any time; and
  \<open>get_remaining_lockout_minutes\<close> is never negative, in any state \<open>m'\<close>, for any user
  \<open>Y\<close> and time.
\<close>

theorem expired_lockout_self_heals:
  assumes "lockout_expiry m X = Some t" and "now > t"
  shows
    "is_locked_out m X now = (False, clear_lockout m X)
     \<and> failed_attempts (snd (is_locked_out m X now)) X = None
     \<and> lockout_expiry (snd (is_locked_out m X now)) X = None
     \<and> get_remaining_lockout_minutes (snd (is_locked_out m X now)) X now1 = 0
     \<and> 0 \<le> get_remaining_lockout_minutes m' Y now2"
proof -
  have heal: "is_locked_out m X now = (False, clear_lockout m X)"
    using assms by (simp add: is_locked_out_def)
  have "0 \<le> get_remaining_lockout_minutes m' Y now2"
    by (simp add: get_remaining_lockout_minutes_def split: option.splits)
  with heal show ?thesis
    by (simp add: clear_lockout_same get_remaining_lockout_minutes_def)
qed

theorem expired_lockout_self_heals_witness:
  "lockout_expiry
     (increment_failed_attempts
       (increment_failed_attempts (increment_failed_attempts new_manager ''u@x.y'' 0) ''u@x.y'' 1)
       ''u@x.y'' 2) ''u@x.y'' = Some 302
   \<and> (302.5::real) > 302
   \<and> \<not> fst (is_locked_out
           (increment_failed_attempts
             (increment_failed_attempts (increment_failed_attempts new_manager ''u@x.y'' 0) ''u@x.y'' 1)
             ''u@x.y'' 2) ''u@x.y'' 302.5)"
proof -
  let ?m3 = "increment_failed_attempts
       (increment_failed_attempts (increment_failed_attempts new_manager ''u@x.y'' 0) ''u@x.y'' 1)
       ''u@x.y'' 2"
  have e: "lockout_expiry ?m3 ''u@x.y'' = Some 302"
    by (simp add: increment_failed_attempts_def new_manager_def get_or_zero_def
          MAX_ATTEMPTS_def LOCKOUT_DURATION_def Let_def)
  have l: "(302.5::real) > 302" by simp
  from expired_lockout_self_heals [OF e l, where m' = ?m3 and Y = "''u@x.y''"] e l
  show ?thesis by simp
qed

text \<open>
  C9, as the spec states it: once the count reaches \<open>MAX_ATTEMPTS\<close> the tracker holds only
  the expiry and no failed-attempt count. The code keeps both dictionaries: after three
  failures from a new manager the count \<open>3\<close> is stored beside the expiry.
\<close>

theorem count_retained_after_lock_counterexample:
  "lockout_expiry
     (increment_failed_attempts
       (increment_failed_attempts
         (increment_failed_attempts new_manager ''user@example.com'' 0)
         ''user@example.com'' 1)
       ''user@example.com'' 2) ''user@example.com'' = Some 302
   \<and> failed_attempts
     (increment_failed_attempts
       (increment_failed_attempts
         (increment_failed_attempts new_manager ''user@example.com'' 0)
         ''user@example.com'' 1)
       ''user@example.com'' 2) ''user@example.com'' = Some 3"
  by (simp add: increment_failed_attempts_def new_manager_def get_or_zero_def
        MAX_ATTEMPTS_def LOCKOUT_DURATION_def Let_def)

text \<open>
  C9, amended: when an \<open>increment_failed_attempts\<close> call brings the count of \<open>X\<close> to
  \<open>MAX_ATTEMPTS\<close> or more, the tracker stores the expiry \<open>now + LOCKOUT_DURATION\<close> and keeps
  the incremented count beside it; an \<open>is_locked_out(X)\<close> call made no later than that
  expiry returns \<open>True\<close> and leaves both entries as they are.
\<close>

theorem lock_transition_keeps_count:
  assumes "get_or_zero (failed_attempts m) X + 1 \<ge> MAX_ATTEMPTS"
  shows
    "lockout_expiry (increment_failed_attempts m X now) X = Some (now + LOCKOUT_DURATION)
     \<and> failed_attempts (increment_failed_attempts m X now) X
         = Some (get_or_zero (failed_attempts m) X + 1)
     \<and> (\<not> now1 > now + LOCKOUT_DURATION \<longrightarrow>
          is_locked_out (increment_failed_attempts m X now) X now1
            = (True, increment_failed_attempts m X now))"
  using assms by (simp add: increment_expiry increment_count is_locked_out_def)

theorem lock_transition_keeps_count_witness:
  "get_or_zero (failed_attempts
      (increment_failed_attempts (increment_failed_attempts new_manager ''u@x.y'' 0) ''u@x.y'' 1))
      ''u@x.y'' + 1 \<ge> MAX_ATTEMPTS
   \<and> \<not> (100::real) > 2 + LOCKOUT_DURATION
   \<and> failed_attempts
       (increment_failed_attempts
         (increment_failed_attempts (increment_failed_attempts new_manager ''u@x.y'' 0) ''u@x.y'' 1)
         ''u@x.y'' 2) ''u@x.y'' = Some 3"
proof -
  let ?m2 = "increment_failed_attempts (increment_failed_attempts new_manager ''u@x.y'' 0) ''u@x.y'' 1"
  have c: "get_or_zero (failed_attempts ?m2) ''u@x.y'' = 2"
    by (simp add: increment_failed_attempts_def new_manager_def get_or_zero_def
          MAX_ATTEMPTS_def Let_def)
  then have h: "get_or_zero (failed_attempts ?m2) ''u@x.y'' + 1 \<ge> MAX_ATTEMPTS"
    by (simp add: MAX_ATTEMPTS_def)
  from lock_transition_keeps_count [OF h, of 2 100] h c show ?thesis
    by (simp add: LOCKOUT_DURATION_def)
qed




section \<open>Facts about case conversion and stripping\<close>

lemma ascii_upper_idem: "ascii_upper (ascii_upper c) = ascii_upper c"
  by (auto simp: ascii_upper_def)

lemma ascii_upper_lower: "ascii_upper (ascii_lower c) = ascii_upper c"
  by (auto simp: ascii_upper_def ascii_lower_def)

lemma upper_cp_ascii_upper: "upper_cp T (ascii_upper c) = upper_cp T c"
  by (auto simp: upper_cp_def ascii_upper_def)

lemma isspace_ascii_upper: "isspace T (ascii_upper c) = isspace T c"
  by (auto simp: isspace_def ascii_upper_def)

lemma upper_map_ascii_upper: "upper T (map ascii_upper s) = upper T s"
  by (simp add: upper_def comp_def upper_cp_ascii_upper)

lemma upper_ascii: "is_ascii s \<Longrightarrow> upper T s = map ascii_upper s"
  by (induction s) (simp_all add: upper_def upper_cp_def is_ascii_def)

lemma lower_ascii: "is_ascii s \<Longrightarrow> lower T s = map ascii_lower s"
  by (simp add: lower_def)

lemma strip_map:
  assumes "\<And>c. isspace T (f c) = isspace T c"
  shows "strip T (map f s) = map f (strip T s)"
proof -
  have eq: "isspace T \<circ> f = isspace T" using assms by (simp add: fun_eq_iff)
  have dw: "\<And>xs. dropWhile (isspace T) (map f xs) = map f (dropWhile (isspace T) xs)"
    by (simp add: dropWhile_map eq)
  show ?thesis
    by (simp add: strip_def dw rev_map)
qed

lemma strip_map_ascii_upper: "strip T (map ascii_upper s) = map ascii_upper (strip T s)"
  by (rule strip_map) (rule isspace_ascii_upper)

lemma dropWhile_idem: "dropWhile P (dropWhile P xs) = dropWhile P xs"
  by (induction xs) auto

lemma dropWhile_no_lead: "xs \<noteq> [] \<Longrightarrow> \<not> P (hd xs) \<Longrightarrow> dropWhile P xs = xs"
  by (cases xs) simp_all

lemma strip_idem: "strip T (strip T s) = strip T s"
proof -
  define a where "a = dropWhile (isspace T) s"
  define b where "b = dropWhile (isspace T) (rev a)"
  have "dropWhile (isspace T) (rev b) = rev b"
  proof (cases "b = []")
    case True
    then show ?thesis by simp
  next
    case False
    obtain ys where "rev a = ys @ b"
      unfolding b_def by (metis takeWhile_dropWhile_id)
    then have a: "a = rev b @ rev ys"
      by (metis rev_append rev_rev_ident)
    from False have nb: "rev b \<noteq> []" by simp
    with a have "a \<noteq> []" by simp
    then have "\<not> isspace T (hd a)"
      unfolding a_def by (rule hd_dropWhile)
    moreover from a nb have "hd a = hd (rev b)" by simp
    ultimately show ?thesis using nb by (simp add: dropWhile_no_lead)
  qed
  then show ?thesis
    by (simp add: strip_def dropWhile_idem a_def b_def)
qed

lemma set_strip: "set (strip T s) \<subseteq> set s"
proof -
  have "set (dropWhile (isspace T) (rev (dropWhile (isspace T) s)))
          \<subseteq> set (rev (dropWhile (isspace T) s))"
    using set_dropWhileD by fastforce
  moreover have "set (dropWhile (isspace T) s) \<subseteq> set s"
    using set_dropWhileD by fastforce
  ultimately show ?thesis by (auto simp: strip_def)
qed

lemma is_ascii_strip: "is_ascii s \<Longrightarrow> is_ascii (strip T s)"
  using set_strip [of T s] by (auto simp: is_ascii_def list_all_iff)

text \<open>Inputs that differ only in the case of ASCII letters have the same normal form.\<close>

lemma same_ascii_case_normalised:
  assumes "map ascii_upper t' = map ascii_upper t"
  shows "upper T (strip T t') = upper T (strip T t)"
proof -
  have "upper T (strip T t') = upper T (strip T (map ascii_upper t'))"
    by (simp add: strip_map_ascii_upper upper_map_ascii_upper)
  also have "\<dots> = upper T (strip T (map ascii_upper t))"
    by (simp add: assms)
  also have "\<dots> = upper T (strip T t)"
    by (simp add: strip_map_ascii_upper upper_map_ascii_upper)
  finally show ?thesis .
qed

text \<open>On an ASCII input, normalising twice is normalising once.\<close>

lemma ascii_normalise_twice:
  assumes "is_ascii s"
  shows "upper T (strip T (upper T (strip T s))) = upper T (strip T s)"
proof -
  have a: "is_ascii (strip T s)" using assms by (rule is_ascii_strip)
  then have "upper T (strip T s) = map ascii_upper (strip T s)" by (rule upper_ascii)
  moreover have "upper T (strip T (map ascii_upper (strip T s))) = upper T (strip T s)"
    by (simp add: strip_map_ascii_upper upper_map_ascii_upper strip_idem)
  ultimately show ?thesis by simp
qed

section \<open>utils/reset_helpers.py: the reset code generator\<close>

definition ascii_uppercase :: str where
  "ascii_uppercase = lit ''ABCDEFGHIJKLMNOPQRSTUVWXYZ''"

definition digits :: str where
  "digits = lit ''0123456789''"

text \<open>
  \<open>secrets.choice(seq)\<close>: \<open>IndexError\<close> on an empty sequence, otherwise
  \<open>seq[randbelow(len(seq))]\<close>; the raw draw \<open>r\<close> is reduced to an index below \<open>len(seq)\<close>.
\<close>

definition choice :: "nat \<Rightarrow> 'a list \<Rightarrow> exn + 'a" where
  "choice r seq = (if seq = [] then Inl IndexError else Inr (seq ! (r mod length seq)))"

text \<open>\<open>range(length)\<close> is empty for a negative length.\<close>

definition generate_reset_code :: "entropy \<Rightarrow> int \<Rightarrow> exn + str" where
  "generate_reset_code rng len =
     (let alphabet = ascii_uppercase @ digits
      in collect (map (\<lambda>i. choice (rng i) alphabet) [0..<nat len]))"

lemma alphabet_length: "length (ascii_uppercase @ digits) = 36"
  by (simp add: ascii_uppercase_def digits_def lit_def)

lemma alphabet_distinct: "distinct (ascii_uppercase @ digits)"
  by (simp add: ascii_uppercase_def digits_def lit_def)

lemma alphabet_upper:
  assumes "set code \<subseteq> set (ascii_uppercase @ digits)"
  shows "upper T code = code"
proof -
  have "\<And>c. c \<in> set (ascii_uppercase @ digits) \<Longrightarrow> c < 128 \<and> ascii_upper c = c"
    by (auto simp: ascii_uppercase_def digits_def lit_def ascii_upper_def)
  with assms have "is_ascii code" and "map ascii_upper code = code"
    by (auto simp: is_ascii_def list_all_iff intro: map_idI)
  then show ?thesis by (simp add: upper_ascii)
qed

lemma generate_reset_code_eq:
  "generate_reset_code rng len
     = Inr (map (\<lambda>i. (ascii_uppercase @ digits) ! (rng i mod 36)) [0..<nat len])"
proof -
  have "\<And>r. choice r (ascii_uppercase @ digits)
               = Inr ((ascii_uppercase @ digits) ! (r mod 36))"
    by (simp add: choice_def ascii_uppercase_def digits_def lit_def)
  then show ?thesis
    by (simp add: generate_reset_code_def Let_def collect_all_Inr)
qed

section \<open>Reset Code Generator\<close>

text \<open>
  C6. For every length \<open>n \<ge> 0\<close>, \<open>generate_reset_code(n)\<close>, the generator that
  \<open>create_reset_token\<close> calls, returns without an exception a string of exactly \<open>n\<close>
  characters, each from the 36 distinct symbols \<open>A-Z0-9\<close>; \<open>upper()\<close> leaves such a
  string unchanged, it is upper-case by construction. In particular \<open>generate(6)\<close>
  returns exactly 6 such characters.
\<close>

theorem generate_reset_code_shape:
  assumes "0 \<le> n"
  shows
    "(\<exists>code. generate_reset_code rng n = Inr code
        \<and> int (length code) = n
        \<and> set code \<subseteq> set (ascii_uppercase @ digits)
        \<and> upper T code = code)
     \<and> length (ascii_uppercase @ digits) = 36 \<and> distinct (ascii_uppercase @ digits)
     \<and> ascii_uppercase @ digits = lit ''ABCDEFGHIJKLMNOPQRSTUVWXYZ0123456789''"
proof -
  let ?alphabet = "ascii_uppercase @ digits"
  let ?code = "map (\<lambda>i. ?alphabet ! (rng i mod 36)) [0..<nat n]"
  have mem: "set ?code \<subseteq> set ?alphabet"
  proof
    fix c assume "c \<in> set ?code"
    then obtain i where "c = ?alphabet ! (rng i mod 36)" by auto
    moreover have "rng i mod 36 < length ?alphabet"
      by (simp only: alphabet_length)
    ultimately show "c \<in> set ?alphabet" by (simp only: nth_mem)
  qed
  then have "upper T ?code = ?code" by (rule alphabet_upper)
  moreover have "int (length ?code) = n" using assms by simp
  ultimately have first: "\<exists>code. generate_reset_code rng n = Inr code
        \<and> int (length code) = n \<and> set code \<subseteq> set ?alphabet \<and> upper T code = code"
    using mem generate_reset_code_eq [of rng n] by blast
  have spelled: "?alphabet = lit ''ABCDEFGHIJKLMNOPQRSTUVWXYZ0123456789''"
    by (simp add: ascii_uppercase_def digits_def lit_def)
  from first alphabet_length alphabet_distinct spelled show ?thesis
    by blast
qed

theorem generate_reset_code_shape_witness:
  "(0::int) \<le> 6
   \<and> (\<exists>code. generate_reset_code (\<lambda>i. 7 * i + 20) 6 = Inr code
        \<and> int (length code) = 6
        \<and> set code \<subseteq> set (ascii_uppercase @ digits)
        \<and> upper \<lparr>to_upper_full = \<lambda>c. [c], unicode_lower = \<lambda>s. s,
                   unicode_isspace = \<lambda>c. False, sql_upper = \<lambda>s. s\<rparr> code = code)"
proof -
  have h: "(0::int) \<le> 6" by simp
  from generate_reset_code_shape [OF h] h show ?thesis by blast
qed

section \<open>utils/database.py\<close>

text \<open>
  The store holds the two tables the claims are about, in row order. A \<open>datetime\<close> is a
  number of microseconds. The field \<open>calls\<close> is the trace of the \<open>Database\<close> methods
  invoked so far, each with its arguments and, for a write, whether the statement was
  executed: it makes "no method is called" and "called only after" statable. A write
  that meets \<open>mysql.connector.Error\<close> returns \<open>False\<close>; whether it does is the
  environment's choice, the argument \<open>ok\<close>.
\<close>

type_synonym datetime = int

record user_row =
  user_id :: int
  first_name :: str
  last_name :: str
  email :: str
  phone_number :: str
  password_hash :: str

text \<open>The column \<open>user_id\<close> of \<open>password_reset_tokens\<close> is the field \<open>token_user_id\<close>.\<close>

record token_row =
  token_id :: int
  token_user_id :: int
  token :: str
  expires_at :: datetime
  is_used :: bool

datatype db_call =
    GetUserByUsername str
  | UpdateUserPassword int str bool
  | GetPasswordResetToken str
  | MarkTokenUsed int bool

record database =
  users :: "user_row list"
  password_reset_tokens :: "token_row list"
  calls :: "db_call list"

text \<open>\<open>SELECT * FROM users WHERE email=%s\<close>, \<open>fetchone()\<close>: the first matching row.\<close>

definition db_get_user_by_username :: "database \<Rightarrow> str \<Rightarrow> user_row option \<times> database" where
  "db_get_user_by_username d username =
     (find (\<lambda>u. email u = username) (users d),
      d\<lparr>calls := calls d @ [GetUserByUsername username]\<rparr>)"

definition db_update_user_password ::
  "database \<Rightarrow> int \<Rightarrow> str \<Rightarrow> bool \<Rightarrow> bool \<times> database" where
  "db_update_user_password d uid new_password_hash ok =
     (if ok
      then (True,
            d\<lparr>users := map (\<lambda>u. if user_id u = uid
                                 then u\<lparr>password_hash := new_password_hash\<rparr> else u) (users d),
              calls := calls d @ [UpdateUserPassword uid new_password_hash True]\<rparr>)
      else (False, d\<lparr>calls := calls d @ [UpdateUserPassword uid new_password_hash False]\<rparr>))"

text \<open>
  \<open>SELECT * FROM password_reset_tokens WHERE UPPER(token)=%s\<close> on the normalised
  argument, \<open>fetchone()\<close>: the first row whose token the engine's \<open>UPPER\<close> maps to it.
\<close>

definition db_get_password_reset_token ::
  "tables \<Rightarrow> database \<Rightarrow> str \<Rightarrow> token_row option \<times> database" where
  "db_get_password_reset_token T d tok =
     (let t = upper T (strip T tok)
      in (find (\<lambda>r. sql_upper T (token r) = t) (password_reset_tokens d),
          d\<lparr>calls := calls d @ [GetPasswordResetToken tok]\<rparr>))"

definition db_mark_token_used :: "database \<Rightarrow> int \<Rightarrow> bool \<Rightarrow> bool \<times> database" where
  "db_mark_token_used d tid ok =
     (if ok
      then (True,
            d\<lparr>password_reset_tokens :=
                 map (\<lambda>r. if token_id r = tid then r\<lparr>is_used := True\<rparr> else r)
                     (password_reset_tokens d),
              calls := calls d @ [MarkTokenUsed tid True]\<rparr>)
      else (False, d\<lparr>calls := calls d @ [MarkTokenUsed tid False]\<rparr>))"

section \<open>utils/reset_helpers.py\<close>

text \<open>\<open>now\<close> is the value of \<open>datetime.utcnow()\<close>; \<open>expires_at\<close> comes back as a datetime.\<close>

definition validate_reset_token ::
  "tables \<Rightarrow> database \<Rightarrow> str \<Rightarrow> datetime \<Rightarrow> bool \<times> database" where
  "validate_reset_token T d tok now =
     (let t = upper T (strip T tok);
          (token_data, d1) = db_get_password_reset_token T d t
      in case token_data of
           None \<Rightarrow> (False, d1)
         | Some row \<Rightarrow>
             if is_used row then (False, d1)
             else if expires_at row < now then (False, d1)
             else (True, d1))"

definition mark_token_used :: "database \<Rightarrow> int \<Rightarrow> bool \<Rightarrow> bool \<times> database" where
  "mark_token_used d tid ok = db_mark_token_used d tid ok"

text \<open>An exception of \<open>hash_password\<close> leaves \<open>reset_password\<close> before the store is called.\<close>

definition reset_password ::
  "(byte list \<Rightarrow> byte list) \<Rightarrow> entropy \<Rightarrow> database \<Rightarrow> int \<Rightarrow> str \<Rightarrow> bool
     \<Rightarrow> (exn + bool) \<times> database" where
  "reset_password sha rng d uid new_password ok =
     (case hash_password sha rng new_password of
        Inl e \<Rightarrow> (Inl e, d)
      | Inr hashed \<Rightarrow>
          (let (success, d1) = db_update_user_password d uid hashed ok
           in (Inr success, d1)))"

section \<open>screens/reset_password.py\<close>

datatype reset_message =
    FillInAllFields
  | PasswordTooShort
  | InvalidOrExpiredCode
  | PasswordResetSuccessfully
  | FailedToResetPassword

text \<open>
  \<open>PasswordResetScreen.on_reset_password\<close>: the message box shown (or the exception that
  leaves the handler) and the store afterwards. \<open>upd_ok\<close> and \<open>mark_ok\<close> say whether the
  password write and the token write are executed by the store when they are attempted.
\<close>

definition on_reset_password ::
  "tables \<Rightarrow> (byte list \<Rightarrow> byte list) \<Rightarrow> entropy \<Rightarrow> database \<Rightarrow> str \<Rightarrow> str \<Rightarrow> datetime
     \<Rightarrow> bool \<Rightarrow> bool \<Rightarrow> (exn + reset_message) \<times> database" where
  "on_reset_password T sha rng d token_text new_password now upd_ok mark_ok =
     (let tok = strip T token_text
      in if tok = [] \<or> new_password = [] then (Inr FillInAllFields, d)
         else if length new_password < 8 then (Inr PasswordTooShort, d)
         else
           (case validate_reset_token T d tok now of
              (False, d1) \<Rightarrow> (Inr InvalidOrExpiredCode, d1)
            | (True, d1) \<Rightarrow>
                (case db_get_password_reset_token T d1 tok of
                   (None, d2) \<Rightarrow> (Inl TypeError, d2)
                 | (Some token_data, d2) \<Rightarrow>
                     (case reset_password sha rng d2 (token_user_id token_data) new_password upd_ok of
                        (Inl e, d3) \<Rightarrow> (Inl e, d3)
                      | (Inr True, d3) \<Rightarrow>
                          (let (marked, d4) = mark_token_used d3 (token_id token_data) mark_ok
                           in (Inr PasswordResetSuccessfully, d4))
                      | (Inr False, d3) \<Rightarrow> (Inr FailedToResetPassword, d3)))))"

section \<open>utils/login_helpers.py: validation and authentication\<close>

definition validate_login_input :: "str \<Rightarrow> str \<Rightarrow> bool \<times> string" where
  "validate_login_input username password =
     (if username = [] \<or> password = []
      then (False, ''Please enter both username and password.'')
      else if code_of CHR ''@'' \<notin> set username \<or> code_of CHR ''.'' \<notin> set username
      then (False, ''Please enter a valid email address.'')
      else if length password < 8
      then (False, ''Password must be at least 8 characters.'')
      else (True, ''''))"

text \<open>The result \<open>(False, {})\<close> is \<open>None\<close>, the result \<open>(True, user)\<close> is \<open>Some user\<close>.\<close>

definition authenticate_user ::
  "(byte list \<Rightarrow> byte list) \<Rightarrow> database \<Rightarrow> str \<Rightarrow> str
     \<Rightarrow> (exn + user_row option) \<times> database" where
  "authenticate_user sha d username password =
     (case db_get_user_by_username d username of
        (None, d1) \<Rightarrow> (Inr None, d1)
      | (Some user, d1) \<Rightarrow>
          (case verify_password sha (password_hash user) password of
             Inl e \<Rightarrow> (Inl e, d1)
           | Inr False \<Rightarrow> (Inr None, d1)
           | Inr True \<Rightarrow> (Inr (Some user), d1)))"

section \<open>screens/login.py\<close>

text \<open>
  The fields of \<open>LoginScreen\<close> that the handlers read and write; \<open>timer_active\<close> says that
  the single-shot login timer has been started and has not fired yet.
\<close>

record login_screen =
  db :: database
  lockout :: "str lockout_manager"
  is_logging_in :: bool
  pending :: "(str \<times> str) option"
  timer_active :: bool

datatype login_message =
    NoMessage
  | ValidationError string
  | LockedOutMessage int
  | LoggingIn
  | LoginFailed int
  | LoginSuccessful str
  | Raised exn

definition on_login_clicked ::
  "tables \<Rightarrow> login_screen \<Rightarrow> str \<Rightarrow> str \<Rightarrow> real \<Rightarrow> real
     \<Rightarrow> login_message \<times> login_screen" where
  "on_login_clicked T s username_text password_text t_check t_remaining =
     (if is_logging_in s then (NoMessage, s)
      else
        (let username = lower T (strip T username_text);
             password = password_text;
             (valid, error) = validate_login_input username password
         in if \<not> valid then (ValidationError error, s)
            else
              (case is_locked_out (lockout s) username t_check of
                 (True, lm) \<Rightarrow>
                   (LockedOutMessage (get_remaining_lockout_minutes lm username t_remaining),
                    s\<lparr>lockout := lm\<rparr>)
               | (False, lm) \<Rightarrow>
                   (LoggingIn,
                    s\<lparr>lockout := lm, is_logging_in := True,
                      pending := Some (username, password), timer_active := True\<rparr>))))"

definition complete_login_attempt ::
  "(byte list \<Rightarrow> byte list) \<Rightarrow> login_screen \<Rightarrow> real \<Rightarrow> real \<Rightarrow> real
     \<Rightarrow> login_message \<times> login_screen" where
  "complete_login_attempt sha s t_fail t_check t_remaining =
     (case pending s of
        None \<Rightarrow> (Raised AttributeError, s\<lparr>timer_active := False\<rparr>)
      | Some (username, password) \<Rightarrow>
          (case authenticate_user sha (db s) username password of
             (Inl e, d1) \<Rightarrow> (Raised e, s\<lparr>db := d1, timer_active := False\<rparr>)
           | (Inr (Some user), d1) \<Rightarrow>
               (LoginSuccessful username,
                s\<lparr>db := d1, lockout := clear_lockout (lockout s) username,
                  is_logging_in := False, timer_active := False\<rparr>)
           | (Inr None, d1) \<Rightarrow>
               (let lm1 = increment_failed_attempts (lockout s) username t_fail;
                    attempts_left = 3 - get_or_zero (failed_attempts lm1) username;
                    (locked, lm2) = is_locked_out lm1 username t_check
                in ((if locked
                     then LockedOutMessage (get_remaining_lockout_minutes lm2 username t_remaining)
                     else LoginFailed attempts_left),
                    s\<lparr>db := d1, lockout := lm2, is_logging_in := False,
                      timer_active := False\<rparr>))))"

text \<open>One login attempt: the click, and the timer's handler if the click started the timer.\<close>

definition login_attempt ::
  "tables \<Rightarrow> (byte list \<Rightarrow> byte list) \<Rightarrow> login_screen \<Rightarrow> str \<Rightarrow> str
     \<Rightarrow> real \<Rightarrow> real \<Rightarrow> real \<Rightarrow> real \<Rightarrow> real \<Rightarrow> login_message \<times> login_screen" where
  "login_attempt T sha s username_text password_text t1 t2 t3 t4 t5 =
     (case on_login_clicked T s username_text password_text t1 t2 of
        (LoggingIn, s1) \<Rightarrow> complete_login_attempt sha s1 t3 t4 t5
      | (msg, s1) \<Rightarrow> (msg, s1))"


section \<open>Facts about the store and the reset helpers\<close>

lemma db_get_password_reset_token_fst:
  "fst (db_get_password_reset_token T d tok)
     = find (\<lambda>r. sql_upper T (token r) = upper T (strip T tok)) (password_reset_tokens d)"
  by (simp add: db_get_password_reset_token_def Let_def)

lemma db_get_password_reset_token_snd:
  "snd (db_get_password_reset_token T d tok)
     = d\<lparr>calls := calls d @ [GetPasswordResetToken tok]\<rparr>"
  by (simp add: db_get_password_reset_token_def Let_def)

lemma validate_reset_token_fst:
  "fst (validate_reset_token T d tok now) =
     (case fst (db_get_password_reset_token T d (upper T (strip T tok))) of
        None \<Rightarrow> False
      | Some row \<Rightarrow> \<not> is_used row \<and> \<not> expires_at row < now)"
  by (cases "db_get_password_reset_token T d (upper T (strip T tok))")
     (auto simp: validate_reset_token_def Let_def split: option.splits)

lemma validate_reset_token_snd:
  "snd (validate_reset_token T d tok now)
     = d\<lparr>calls := calls d @ [GetPasswordResetToken (upper T (strip T tok))]\<rparr>"
proof -
  have "snd (db_get_password_reset_token T d (upper T (strip T tok)))
          = d\<lparr>calls := calls d @ [GetPasswordResetToken (upper T (strip T tok))]\<rparr>"
    by (rule db_get_password_reset_token_snd)
  then show ?thesis
    by (cases "db_get_password_reset_token T d (upper T (strip T tok))")
       (auto simp: validate_reset_token_def Let_def split: option.splits)
qed

lemma validate_reset_token_same_key:
  assumes "upper T (strip T a) = upper T (strip T b)"
  shows "fst (validate_reset_token T d a now) = fst (validate_reset_token T d b now)"
  by (simp add: validate_reset_token_fst assms)

section \<open>Reset Token Service\<close>

text \<open>
  C3. \<open>validate_reset_token\<close> looks the upper-case normalised token up in the store. It
  returns \<open>False\<close> when no row is found; when a row is found, the result is \<open>True\<close>
  exactly if the row is unused and its \<open>expires_at\<close> is not before the current time. The
  result depends on the input only through its normalised form: inputs that differ
  only in the case of their ASCII letters give the same result, and so do the
  lower-case and the upper-case spelling of an ASCII input. The call leaves both
  tables as they are: the only store method invoked is one \<open>get_password_reset_token\<close>
  with the normalised token.
\<close>

theorem validate_reset_token_fails_closed_read_only:
  "(fst (db_get_password_reset_token T d (upper T (strip T t))) = None \<longrightarrow>
      \<not> fst (validate_reset_token T d t now))
   \<and> (\<forall>row. fst (db_get_password_reset_token T d (upper T (strip T t))) = Some row \<longrightarrow>
          fst (validate_reset_token T d t now) = (\<not> is_used row \<and> \<not> expires_at row < now))
   \<and> (upper T (strip T t') = upper T (strip T t) \<longrightarrow>
          fst (validate_reset_token T d t' now) = fst (validate_reset_token T d t now))
   \<and> (map ascii_upper t' = map ascii_upper t \<longrightarrow>
          fst (validate_reset_token T d t' now) = fst (validate_reset_token T d t now))
   \<and> (is_ascii t \<longrightarrow>
          fst (validate_reset_token T d (lower T t) now) = fst (validate_reset_token T d t now)
          \<and> fst (validate_reset_token T d (upper T t) now) = fst (validate_reset_token T d t now))
   \<and> users (snd (validate_reset_token T d t now)) = users d
   \<and> password_reset_tokens (snd (validate_reset_token T d t now)) = password_reset_tokens d
   \<and> calls (snd (validate_reset_token T d t now))
        = calls d @ [GetPasswordResetToken (upper T (strip T t))]"
proof -
  have found: "fst (db_get_password_reset_token T d (upper T (strip T t))) = None \<longrightarrow>
      \<not> fst (validate_reset_token T d t now)"
    by (simp add: validate_reset_token_fst)
  have row: "\<forall>row. fst (db_get_password_reset_token T d (upper T (strip T t))) = Some row \<longrightarrow>
      fst (validate_reset_token T d t now) = (\<not> is_used row \<and> \<not> expires_at row < now)"
    by (simp add: validate_reset_token_fst)
  have key: "upper T (strip T t') = upper T (strip T t) \<longrightarrow>
      fst (validate_reset_token T d t' now) = fst (validate_reset_token T d t now)"
    using validate_reset_token_same_key by blast
  have variant: "fst (validate_reset_token T d a now) = fst (validate_reset_token T d t now)"
    if "map ascii_upper a = map ascii_upper t" for a
    using that by (intro validate_reset_token_same_key same_ascii_case_normalised)
  have ascii: "fst (validate_reset_token T d (lower T t) now) = fst (validate_reset_token T d t now)
      \<and> fst (validate_reset_token T d (upper T t) now) = fst (validate_reset_token T d t now)"
    if "is_ascii t"
  proof -
    from that have "map ascii_upper (lower T t) = map ascii_upper t"
      by (simp add: lower_ascii comp_def ascii_upper_lower)
    moreover from that have "map ascii_upper (upper T t) = map ascii_upper t"
      by (simp add: upper_ascii comp_def ascii_upper_idem)
    ultimately show ?thesis using variant by blast
  qed
  have v: "map ascii_upper t' = map ascii_upper t \<longrightarrow>
      fst (validate_reset_token T d t' now) = fst (validate_reset_token T d t now)"
    using variant by blast
  have a: "is_ascii t \<longrightarrow>
      fst (validate_reset_token T d (lower T t) now) = fst (validate_reset_token T d t now)
      \<and> fst (validate_reset_token T d (upper T t) now) = fst (validate_reset_token T d t now)"
    using ascii by blast
  have u: "users (snd (validate_reset_token T d t now)) = users d"
    and p: "password_reset_tokens (snd (validate_reset_token T d t now))
              = password_reset_tokens d"
    and c: "calls (snd (validate_reset_token T d t now))
              = calls d @ [GetPasswordResetToken (upper T (strip T t))]"
    by (simp_all add: validate_reset_token_snd)
  from found row key v a u p c show ?thesis
    by (intro conjI)
qed

theorem validate_reset_token_fails_closed_read_only_witness:
  "fst (db_get_password_reset_token
         \<lparr>to_upper_full = \<lambda>c. [c], unicode_lower = \<lambda>s. s, unicode_isspace = \<lambda>c. False,
          sql_upper = \<lambda>s. s\<rparr>
         \<lparr>users = [],
          password_reset_tokens =
            [\<lparr>token_id = 1, token_user_id = 42, token = lit ''AB12CD'', expires_at = 1000,
              is_used = False\<rparr>],
          calls = []\<rparr> (lit ''ZZ99ZZ'')) = None
   \<and> \<not> fst (validate_reset_token
         \<lparr>to_upper_full = \<lambda>c. [c], unicode_lower = \<lambda>s. s, unicode_isspace = \<lambda>c. False,
          sql_upper = \<lambda>s. s\<rparr>
         \<lparr>users = [],
          password_reset_tokens =
            [\<lparr>token_id = 1, token_user_id = 42, token = lit ''AB12CD'', expires_at = 1000,
              is_used = False\<rparr>],
          calls = []\<rparr> (lit ''zz99zz'') 999)
   \<and> fst (db_get_password_reset_token
         \<lparr>to_upper_full = \<lambda>c. [c], unicode_lower = \<lambda>s. s, unicode_isspace = \<lambda>c. False,
          sql_upper = \<lambda>s. s\<rparr>
         \<lparr>users = [],
          password_reset_tokens =
            [\<lparr>token_id = 1, token_user_id = 42, token = lit ''AB12CD'', expires_at = 1000,
              is_used = False\<rparr>],
          calls = []\<rparr> (lit ''AB12CD''))
       = Some \<lparr>token_id = 1, token_user_id = 42, token = lit ''AB12CD'', expires_at = 1000,
               is_used = False\<rparr>
   \<and> map ascii_upper (lit ''ab12cd'') = map ascii_upper (lit ''AB12CD'')
   \<and> is_ascii (lit ''AB12CD'')
   \<and> fst (validate_reset_token
         \<lparr>to_upper_full = \<lambda>c. [c], unicode_lower = \<lambda>s. s, unicode_isspace = \<lambda>c. False,
          sql_upper = \<lambda>s. s\<rparr>
         \<lparr>users = [],
          password_reset_tokens =
            [\<lparr>token_id = 1, token_user_id = 42, token = lit ''AB12CD'', expires_at = 1000,
              is_used = False\<rparr>],
          calls = []\<rparr> (lit ''ab12cd'') 999)"
proof -
  let ?T = "\<lparr>to_upper_full = \<lambda>c. [c], unicode_lower = \<lambda>s. s, unicode_isspace = \<lambda>c. False,
          sql_upper = \<lambda>s. s\<rparr>"
  let ?row = "\<lparr>token_id = 1, token_user_id = 42, token = lit ''AB12CD'', expires_at = 1000,
               is_used = False\<rparr>"
  let ?d = "\<lparr>users = [], password_reset_tokens = [?row], calls = []\<rparr>"
  have n1: "upper ?T (strip ?T (lit ''zz99zz'')) = lit ''ZZ99ZZ''"
    and n2: "upper ?T (strip ?T (lit ''ZZ99ZZ'')) = lit ''ZZ99ZZ''"
    and n3: "upper ?T (strip ?T (lit ''AB12CD'')) = lit ''AB12CD''"
    by (simp_all add: upper_def upper_cp_def ascii_upper_def strip_def isspace_def lit_def)
  have none: "fst (db_get_password_reset_token ?T ?d (lit ''ZZ99ZZ'')) = None"
    by (simp add: db_get_password_reset_token_fst n2) (simp add: lit_def)
  have some: "fst (db_get_password_reset_token ?T ?d (lit ''AB12CD'')) = Some ?row"
    by (simp add: db_get_password_reset_token_fst n3)
  have same: "map ascii_upper (lit ''ab12cd'') = map ascii_upper (lit ''AB12CD'')"
    by (simp add: ascii_upper_def lit_def)
  have asc: "is_ascii (lit ''AB12CD'')"
    by (simp add: is_ascii_def lit_def)
  have f1: "fst (db_get_password_reset_token ?T ?d (upper ?T (strip ?T (lit ''zz99zz'')))) = None"
    by (simp only: n1 none)
  with validate_reset_token_fails_closed_read_only [of ?T ?d "lit ''zz99zz''" 999]
  have a: "\<not> fst (validate_reset_token ?T ?d (lit ''zz99zz'') 999)" by blast
  note inst = validate_reset_token_fails_closed_read_only
                [of ?T ?d "lit ''AB12CD''" 999 "lit ''ab12cd''"]
  have f2: "fst (db_get_password_reset_token ?T ?d (upper ?T (strip ?T (lit ''AB12CD''))))
              = Some ?row"
    by (simp only: n3 some)
  with inst have "fst (validate_reset_token ?T ?d (lit ''AB12CD'') 999)
                    = (\<not> is_used ?row \<and> \<not> expires_at ?row < 999)"
    by blast
  then have upper_case: "fst (validate_reset_token ?T ?d (lit ''AB12CD'') 999)" by simp
  from inst same have "fst (validate_reset_token ?T ?d (lit ''ab12cd'') 999)
                         = fst (validate_reset_token ?T ?d (lit ''AB12CD'') 999)"
    by blast
  with upper_case have b: "fst (validate_reset_token ?T ?d (lit ''ab12cd'') 999)" by blast
  from none a some same asc b show ?thesis by (intro conjI)
qed


section \<open>The reset protocol of the reset screen\<close>

text \<open>
  A trace of store calls in which every \<open>mark_token_used\<close> comes after a password write,
  and the latest password write before it returned success. The flag is the result of
  the latest password write so far (\<open>False\<close> when there was none).
\<close>

fun consumed_only_after_write :: "bool \<Rightarrow> db_call list \<Rightarrow> bool" where
  "consumed_only_after_write written [] = True"
| "consumed_only_after_write written (UpdateUserPassword uid h ok # cs) =
     consumed_only_after_write ok cs"
| "consumed_only_after_write written (MarkTokenUsed tid ok # cs) =
     (written \<and> consumed_only_after_write written cs)"
| "consumed_only_after_write written (GetUserByUsername u # cs) =
     consumed_only_after_write written cs"
| "consumed_only_after_write written (GetPasswordResetToken t # cs) =
     consumed_only_after_write written cs"

lemma hash_password_Inr_iff:
  "(\<exists>h. hash_password sha rng pw = Inr h) \<longleftrightarrow> (\<exists>b. encode pw = Inr b)"
proof -
  let ?salt = "token_hex rng 16"
  have "\<forall>c\<in>set ?salt. \<exists>b. encode_char c = Inr b"
    using encode_hex [of "token_bytes rng 16"] by (simp add: token_hex_def encode_Inr_iff)
  then have "(\<exists>z. encode (?salt @ pw) = Inr z) \<longleftrightarrow> (\<exists>b. encode pw = Inr b)"
    by (auto simp: encode_Inr_iff)
  moreover have "(\<exists>h. hash_password sha rng pw = Inr h) \<longleftrightarrow> (\<exists>z. encode (?salt @ pw) = Inr z)"
    by (auto simp: hash_password_def Let_def split: sum.splits)
  ultimately show ?thesis by simp
qed

lemma hash_password_other_draws:
  assumes "hash_password sha rng pw = Inr h"
  shows "\<exists>h'. hash_password sha rng' pw = Inr h'"
  using assms hash_password_Inr_iff [of sha rng pw] hash_password_Inr_iff [of sha rng' pw]
  by blast

text \<open>
  The handler, path by path. Validation looks up the token normalised twice (once by
  \<open>validate_reset_token\<close>, once more by the store method); the second lookup, which
  yields the row whose user and id are used, normalises the stripped input once.
\<close>

lemma on_reset_password_eq:
  "on_reset_password T sha rng d token_text new_password now upd_ok mark_ok =
     (let tok = strip T token_text;
          d1 = d\<lparr>calls := calls d @ [GetPasswordResetToken (upper T tok)]\<rparr>;
          d2 = d\<lparr>calls := calls d @ [GetPasswordResetToken (upper T tok),
                                      GetPasswordResetToken tok]\<rparr>
      in if tok = [] \<or> new_password = [] then (Inr FillInAllFields, d)
         else if length new_password < 8 then (Inr PasswordTooShort, d)
         else
           (case find (\<lambda>r. sql_upper T (token r) = upper T (strip T (upper T tok)))
                      (password_reset_tokens d) of
              None \<Rightarrow> (Inr InvalidOrExpiredCode, d1)
            | Some checked \<Rightarrow>
                if is_used checked \<or> expires_at checked < now then (Inr InvalidOrExpiredCode, d1)
                else
                  (case find (\<lambda>r. sql_upper T (token r) = upper T tok)
                             (password_reset_tokens d) of
                     None \<Rightarrow> (Inl TypeError, d2)
                   | Some row \<Rightarrow>
                       (case hash_password sha rng new_password of
                          Inl e \<Rightarrow> (Inl e, d2)
                        | Inr hashed \<Rightarrow>
                            if upd_ok
                            then (Inr PasswordResetSuccessfully,
                                  snd (db_mark_token_used
                                         (snd (db_update_user_password d2 (token_user_id row)
                                                 hashed True))
                                         (token_id row) mark_ok))
                            else (Inr FailedToResetPassword,
                                  snd (db_update_user_password d2 (token_user_id row)
                                         hashed False))))))"
proof -
  let ?tok = "strip T token_text"
  let ?d1 = "d\<lparr>calls := calls d @ [GetPasswordResetToken (upper T ?tok)]\<rparr>"
  have v1: "validate_reset_token T d ?tok now
      = (case find (\<lambda>r. sql_upper T (token r) = upper T (strip T (upper T ?tok)))
                   (password_reset_tokens d) of
           None \<Rightarrow> False
         | Some row \<Rightarrow> \<not> is_used row \<and> \<not> expires_at row < now, ?d1)"
    using validate_reset_token_fst [of T d ?tok now] validate_reset_token_snd [of T d ?tok now]
    by (simp add: prod_eq_iff db_get_password_reset_token_fst strip_idem)
  have g: "db_get_password_reset_token T ?d1 ?tok
      = (find (\<lambda>r. sql_upper T (token r) = upper T ?tok) (password_reset_tokens d),
         d\<lparr>calls := calls d @ [GetPasswordResetToken (upper T ?tok),
                                GetPasswordResetToken ?tok]\<rparr>)"
    by (simp add: db_get_password_reset_token_def Let_def strip_idem)
  have u: "\<And>d2 uid h. fst (db_update_user_password d2 uid h upd_ok) = upd_ok"
    by (simp add: db_update_user_password_def)
  show ?thesis
    unfolding on_reset_password_def Let_def v1
    by (auto simp: g u reset_password_def mark_token_used_def case_prod_beta Let_def
             split: option.splits bool.splits sum.splits)
qed


text \<open>
  C4. In \<open>on_reset_password\<close> the store calls made by the handler form a trace in which
  \<open>mark_token_used\<close> occurs only after a password write that returned success, and not
  at all when the password write fails. When the write fails the handler reports the
  failure and both tables are as before: the token row that validation checked is
  still found and still unused, the token still validates, and submitting the same
  code and password again succeeds once the store executes the write. The row that
  the handler fetches after validation is the checked one whenever normalising the
  input twice gives the same as normalising it once, as on every ASCII input.
\<close>

theorem token_consumed_only_after_password_write:
  assumes "on_reset_password T sha rng d token_text new_password now upd_ok mark_ok = (out, d')"
  shows
    "(\<exists>new. calls d' = calls d @ new \<and> consumed_only_after_write False new
         \<and> (\<not> upd_ok \<longrightarrow> (\<forall>tid ok. MarkTokenUsed tid ok \<notin> set new)))
     \<and> (\<not> upd_ok \<longrightarrow> password_reset_tokens d' = password_reset_tokens d \<and> users d' = users d)
     \<and> (out = Inr PasswordResetSuccessfully \<longrightarrow> upd_ok)
     \<and> (out = Inr FailedToResetPassword \<longrightarrow>
          \<not> upd_ok
          \<and> (\<exists>row. fst (db_get_password_reset_token T d' (upper T (strip T token_text)))
                       = Some row \<and> \<not> is_used row)
          \<and> (upper T (strip T (upper T (strip T token_text))) = upper T (strip T token_text)
               \<or> is_ascii token_text \<longrightarrow>
              (\<exists>row. fst (db_get_password_reset_token T d' token_text) = Some row
                      \<and> \<not> is_used row))
          \<and> fst (validate_reset_token T d' token_text now)
          \<and> fst (on_reset_password T sha rng' d' token_text new_password now True mark_ok')
              = Inr PasswordResetSuccessfully)"
proof -
  let ?tok = "strip T token_text"
  let ?key1 = "upper T (strip T (upper T ?tok))"
  let ?key2 = "upper T ?tok"
  let ?find = "\<lambda>k. find (\<lambda>r. sql_upper T (token r) = k) (password_reset_tokens d)"
  note defs = db_update_user_password_def db_mark_token_used_def Let_def
  have trace: "\<exists>new. calls d' = calls d @ new \<and> consumed_only_after_write False new
         \<and> (\<not> upd_ok \<longrightarrow> (\<forall>tid ok. MarkTokenUsed tid ok \<notin> set new))"
    using assms unfolding on_reset_password_eq
    by (auto simp: defs split: option.splits if_splits sum.splits)
  have unchanged: "\<not> upd_ok \<longrightarrow>
      password_reset_tokens d' = password_reset_tokens d \<and> users d' = users d"
    using assms unfolding on_reset_password_eq
    by (auto simp: defs split: option.splits if_splits sum.splits)
  have success: "out = Inr PasswordResetSuccessfully \<longrightarrow> upd_ok"
    using assms unfolding on_reset_password_eq
    by (auto simp: defs split: option.splits if_splits sum.splits)
  have failed: "\<not> upd_ok
          \<and> (\<exists>row. fst (db_get_password_reset_token T d' (upper T (strip T token_text)))
                       = Some row \<and> \<not> is_used row)
          \<and> (upper T (strip T (upper T (strip T token_text))) = upper T (strip T token_text)
               \<or> is_ascii token_text \<longrightarrow>
              (\<exists>row. fst (db_get_password_reset_token T d' token_text) = Some row
                      \<and> \<not> is_used row))
          \<and> fst (validate_reset_token T d' token_text now)
          \<and> fst (on_reset_password T sha rng' d' token_text new_password now True mark_ok')
              = Inr PasswordResetSuccessfully"
    if out: "out = Inr FailedToResetPassword"
  proof -
    from assms out obtain checked row hashed
      where input: "?tok \<noteq> []" "new_password \<noteq> []" "\<not> length new_password < 8"
        and checked: "?find ?key1 = Some checked" "\<not> is_used checked"
                     "\<not> expires_at checked < now"
        and row: "?find ?key2 = Some row"
        and hashed: "hash_password sha rng new_password = Inr hashed"
        and no: "\<not> upd_ok"
        and tables: "password_reset_tokens d' = password_reset_tokens d"
      unfolding on_reset_password_eq
      by (auto simp: defs split: option.splits if_splits sum.splits)
    from hashed obtain hashed' where hashed': "hash_password sha rng' new_password = Inr hashed'"
      using hash_password_other_draws by blast
    have k1: "fst (db_get_password_reset_token T d' (upper T (strip T token_text))) = Some checked"
      using checked(1) tables by (simp add: db_get_password_reset_token_fst)
    have k2: "fst (db_get_password_reset_token T d' token_text) = Some row"
      using row tables by (simp add: db_get_password_reset_token_fst)
    have same: "row = checked"
      if "upper T (strip T (upper T (strip T token_text))) = upper T (strip T token_text)
          \<or> is_ascii token_text"
    proof -
      from that have "?key1 = ?key2" using ascii_normalise_twice by blast
      with checked(1) row show ?thesis by simp
    qed
    have valid: "fst (validate_reset_token T d' token_text now)"
      using k1 checked(2,3) by (simp add: validate_reset_token_fst)
    have retry: "fst (on_reset_password T sha rng' d' token_text new_password now True mark_ok')
                   = Inr PasswordResetSuccessfully"
      unfolding on_reset_password_eq
      using input checked row hashed' tables by (simp add: Let_def)
    from no k1 checked(2) k2 same valid retry show ?thesis by blast
  qed
  from trace unchanged success failed show ?thesis by blast
qed


theorem token_consumed_only_after_password_write_witness:
  "on_reset_password
     \<lparr>to_upper_full = \<lambda>c. [c], unicode_lower = \<lambda>s. s, unicode_isspace = \<lambda>c. False,
      sql_upper = \<lambda>s. s\<rparr>
     (\<lambda>bs. bs) (\<lambda>i. 0)
     \<lparr>users = [\<lparr>user_id = 42, first_name = lit ''Ann'', last_name = lit ''Lee'',
                email = lit ''ann@example.com'', phone_number = lit ''0123456789'',
                password_hash = lit ''00$00''\<rparr>],
      password_reset_tokens =
        [\<lparr>token_id = 1, token_user_id = 42, token = lit ''AB12CD'', expires_at = 1000,
          is_used = False\<rparr>],
      calls = []\<rparr> (lit ''ab12cd'') (lit ''newpassword'') 999 False True
   = (Inr FailedToResetPassword,
      snd (on_reset_password
     \<lparr>to_upper_full = \<lambda>c. [c], unicode_lower = \<lambda>s. s, unicode_isspace = \<lambda>c. False,
      sql_upper = \<lambda>s. s\<rparr>
     (\<lambda>bs. bs) (\<lambda>i. 0)
     \<lparr>users = [\<lparr>user_id = 42, first_name = lit ''Ann'', last_name = lit ''Lee'',
                email = lit ''ann@example.com'', phone_number = lit ''0123456789'',
                password_hash = lit ''00$00''\<rparr>],
      password_reset_tokens =
        [\<lparr>token_id = 1, token_user_id = 42, token = lit ''AB12CD'', expires_at = 1000,
          is_used = False\<rparr>],
      calls = []\<rparr> (lit ''ab12cd'') (lit ''newpassword'') 999 False True))
   \<and> is_ascii (lit ''ab12cd'')
   \<and> password_reset_tokens
        (snd (on_reset_password
     \<lparr>to_upper_full = \<lambda>c. [c], unicode_lower = \<lambda>s. s, unicode_isspace = \<lambda>c. False,
      sql_upper = \<lambda>s. s\<rparr>
     (\<lambda>bs. bs) (\<lambda>i. 0)
     \<lparr>users = [\<lparr>user_id = 42, first_name = lit ''Ann'', last_name = lit ''Lee'',
                email = lit ''ann@example.com'', phone_number = lit ''0123456789'',
                password_hash = lit ''00$00''\<rparr>],
      password_reset_tokens =
        [\<lparr>token_id = 1, token_user_id = 42, token = lit ''AB12CD'', expires_at = 1000,
          is_used = False\<rparr>],
      calls = []\<rparr> (lit ''ab12cd'') (lit ''newpassword'') 999 False True))
       = [\<lparr>token_id = 1, token_user_id = 42, token = lit ''AB12CD'', expires_at = 1000,
           is_used = False\<rparr>]
   \<and> fst (on_reset_password
        \<lparr>to_upper_full = \<lambda>c. [c], unicode_lower = \<lambda>s. s, unicode_isspace = \<lambda>c. False,
         sql_upper = \<lambda>s. s\<rparr>
        (\<lambda>bs. bs) (\<lambda>i. 0)
        (snd (on_reset_password
     \<lparr>to_upper_full = \<lambda>c. [c], unicode_lower = \<lambda>s. s, unicode_isspace = \<lambda>c. False,
      sql_upper = \<lambda>s. s\<rparr>
     (\<lambda>bs. bs) (\<lambda>i. 0)
     \<lparr>users = [\<lparr>user_id = 42, first_name = lit ''Ann'', last_name = lit ''Lee'',
                email = lit ''ann@example.com'', phone_number = lit ''0123456789'',
                password_hash = lit ''00$00''\<rparr>],
      password_reset_tokens =
        [\<lparr>token_id = 1, token_user_id = 42, token = lit ''AB12CD'', expires_at = 1000,
          is_used = False\<rparr>],
      calls = []\<rparr> (lit ''ab12cd'') (lit ''newpassword'') 999 False True))
        (lit ''ab12cd'') (lit ''newpassword'') 999 True True)
       = Inr PasswordResetSuccessfully"
proof -
  let ?T = "\<lparr>to_upper_full = \<lambda>c. [c], unicode_lower = \<lambda>s. s, unicode_isspace = \<lambda>c. False,
      sql_upper = \<lambda>s. s\<rparr>"
  let ?row = "\<lparr>token_id = 1, token_user_id = 42, token = lit ''AB12CD'', expires_at = 1000,
          is_used = False\<rparr>"
  let ?d = "\<lparr>users = [\<lparr>user_id = 42, first_name = lit ''Ann'', last_name = lit ''Lee'',
                email = lit ''ann@example.com'', phone_number = lit ''0123456789'',
                password_hash = lit ''00$00''\<rparr>],
      password_reset_tokens = [?row], calls = []\<rparr>"
  let ?run = "on_reset_password ?T (\<lambda>bs. bs) (\<lambda>i. 0) ?d (lit ''ab12cd'') (lit ''newpassword'')
                999 False True"
  have s: "strip ?T (lit ''ab12cd'') = lit ''ab12cd''"
    by (simp add: strip_def isspace_def lit_def)
  have u: "upper ?T (lit ''ab12cd'') = lit ''AB12CD''"
    by (simp add: upper_def upper_cp_def ascii_upper_def lit_def)
  have s': "strip ?T (lit ''AB12CD'') = lit ''AB12CD''"
    by (simp add: strip_def isspace_def lit_def)
  have u': "upper ?T (lit ''AB12CD'') = lit ''AB12CD''"
    by (simp add: upper_def upper_cp_def ascii_upper_def lit_def)
  have ne: "lit ''ab12cd'' \<noteq> []" "lit ''newpassword'' \<noteq> []"
           "\<not> length (lit ''newpassword'') < 8"
    by (simp_all add: lit_def)
  have "\<exists>b. encode (lit ''newpassword'') = Inr b"
    by (simp add: encode_Inr_iff encode_char_def lit_def)
  then obtain h where h: "hash_password (\<lambda>bs. bs) (\<lambda>i. 0) (lit ''newpassword'') = Inr h"
    using hash_password_Inr_iff by blast
  have "fst ?run = Inr FailedToResetPassword"
    by (simp add: on_reset_password_eq Let_def s u s' u' ne h)
  then have hyp: "?run = (Inr FailedToResetPassword, snd ?run)"
    by (simp add: prod_eq_iff)
  have asc: "is_ascii (lit ''ab12cd'')"
    by (simp add: is_ascii_def lit_def)
  note inst = token_consumed_only_after_password_write
                [OF hyp, where rng' = "\<lambda>i. 0" and mark_ok' = True]
  from inst have tables: "password_reset_tokens (snd ?run) = password_reset_tokens ?d"
    by blast
  from inst have retry: "fst (on_reset_password ?T (\<lambda>bs. bs) (\<lambda>i. 0) (snd ?run)
                                (lit ''ab12cd'') (lit ''newpassword'') 999 True True)
                           = Inr PasswordResetSuccessfully"
    by blast
  from tables have tables': "password_reset_tokens (snd ?run) = [?row]" by simp
  from hyp asc tables' retry show ?thesis by (intro conjI)
qed

section \<open>Authentication: input validation comes first\<close>

text \<open>
  C7. When the normalised identity or the password fails the shape check (one of them
  empty, no \<open>@\<close> or no \<open>.\<close> in the identity, or fewer than 8 characters of password),
  \<open>validate_login_input\<close> reports failure and the login attempt ends in the click handler
  with the validation message. The whole screen state is as before: no store method
  has been called (the store and its call trace are unchanged), the lockout manager
  is unchanged, and the login timer has not been started. The shape check accepts
  exactly the pairs with none of these defects.
\<close>

theorem invalid_login_input_touches_nothing:
  assumes "username = lower T (strip T username_text)"
    and "username = [] \<or> password = [] \<or> code_of CHR ''@'' \<notin> set username
         \<or> code_of CHR ''.'' \<notin> set username \<or> length password < 8"
  shows
    "\<not> fst (validate_login_input username password)
     \<and> snd (login_attempt T sha s username_text password t1 t2 t3 t4 t5) = s
     \<and> db (snd (login_attempt T sha s username_text password t1 t2 t3 t4 t5)) = db s
     \<and> calls (db (snd (login_attempt T sha s username_text password t1 t2 t3 t4 t5)))
         = calls (db s)
     \<and> lockout (snd (login_attempt T sha s username_text password t1 t2 t3 t4 t5)) = lockout s
     \<and> (\<not> is_logging_in s \<longrightarrow>
          fst (login_attempt T sha s username_text password t1 t2 t3 t4 t5)
            = ValidationError (snd (validate_login_input username password)))
     \<and> fst (validate_login_input u p)
         = (\<not> (u = [] \<or> p = [] \<or> code_of CHR ''@'' \<notin> set u \<or> code_of CHR ''.'' \<notin> set u
                \<or> length p < 8))"
proof -
  have invalid: "\<not> fst (validate_login_input username password)"
    using assms(2) by (auto simp: validate_login_input_def)
  then have click: "on_login_clicked T s username_text password t1 t2
      = (if is_logging_in s then NoMessage
         else ValidationError (snd (validate_login_input username password)), s)"
    using assms(1) by (simp add: on_login_clicked_def Let_def case_prod_beta)
  then have attempt: "login_attempt T sha s username_text password t1 t2 t3 t4 t5
      = (if is_logging_in s then NoMessage
         else ValidationError (snd (validate_login_input username password)), s)"
    by (simp add: login_attempt_def)
  have "fst (validate_login_input u p)
         = (\<not> (u = [] \<or> p = [] \<or> code_of CHR ''@'' \<notin> set u \<or> code_of CHR ''.'' \<notin> set u
                \<or> length p < 8))"
    by (auto simp: validate_login_input_def)
  with invalid attempt show ?thesis by simp
qed

theorem invalid_login_input_touches_nothing_witness:
  "lit ''user@example.com''
     = lower \<lparr>to_upper_full = \<lambda>c. [c], unicode_lower = \<lambda>s. s, unicode_isspace = \<lambda>c. False,
              sql_upper = \<lambda>s. s\<rparr>
         (strip \<lparr>to_upper_full = \<lambda>c. [c], unicode_lower = \<lambda>s. s,
                 unicode_isspace = \<lambda>c. False, sql_upper = \<lambda>s. s\<rparr>
            (lit '' User@Example.com''))
   \<and> length (lit ''short'') < 8
   \<and> login_attempt
        \<lparr>to_upper_full = \<lambda>c. [c], unicode_lower = \<lambda>s. s, unicode_isspace = \<lambda>c. False,
         sql_upper = \<lambda>s. s\<rparr>
        (\<lambda>bs. bs)
        \<lparr>db = \<lparr>users = [], password_reset_tokens = [], calls = []\<rparr>,
         lockout = new_manager, is_logging_in = False, pending = None,
         timer_active = False\<rparr>
        (lit '' User@Example.com'') (lit ''short'') 0 0 0 0 0
       = (ValidationError ''Password must be at least 8 characters.'',
          \<lparr>db = \<lparr>users = [], password_reset_tokens = [], calls = []\<rparr>,
           lockout = new_manager, is_logging_in = False, pending = None,
           timer_active = False\<rparr>)"
proof -
  let ?T = "\<lparr>to_upper_full = \<lambda>c. [c], unicode_lower = \<lambda>s. s, unicode_isspace = \<lambda>c. False,
              sql_upper = \<lambda>s. s\<rparr>"
  let ?s = "\<lparr>db = \<lparr>users = [], password_reset_tokens = [], calls = []\<rparr>,
         lockout = new_manager, is_logging_in = False, pending = None,
         timer_active = False\<rparr>"
  have n: "lit ''user@example.com'' = lower ?T (strip ?T (lit '' User@Example.com''))"
    by (simp add: lower_def is_ascii_def ascii_lower_def strip_def isspace_def lit_def)
  have short: "length (lit ''short'') < 8" by (simp add: lit_def)
  then have l: "lit ''user@example.com'' = [] \<or> lit ''short'' = []
         \<or> code_of CHR ''@'' \<notin> set (lit ''user@example.com'')
         \<or> code_of CHR ''.'' \<notin> set (lit ''user@example.com'') \<or> length (lit ''short'') < 8"
    by blast
  have m: "snd (validate_login_input (lit ''user@example.com'') (lit ''short''))
             = ''Password must be at least 8 characters.''"
    by (simp add: validate_login_input_def lit_def code_of_def)
  note inst = invalid_login_input_touches_nothing
                [OF n l, of "\<lambda>bs. bs" ?s 0 0 0 0 0]
  from inst have "snd (login_attempt ?T (\<lambda>bs. bs) ?s (lit '' User@Example.com'') (lit ''short'')
                         0 0 0 0 0) = ?s"
    by blast
  moreover from inst have "fst (login_attempt ?T (\<lambda>bs. bs) ?s (lit '' User@Example.com'')
                                  (lit ''short'') 0 0 0 0 0)
      = ValidationError (snd (validate_login_input (lit ''user@example.com'') (lit ''short'')))"
    by simp
  ultimately have "login_attempt ?T (\<lambda>bs. bs) ?s (lit '' User@Example.com'') (lit ''short'')
                     0 0 0 0 0
      = (ValidationError ''Password must be at least 8 characters.'', ?s)"
    by (simp add: prod_eq_iff m)
  with n short show ?thesis by (intro conjI)
qed

end
